theory Spec2Isabelle
  imports Main
begin

section \<open>Values of the notebook\<close>

text \<open>
  The BACPAC notebook defines three helper functions over columns of a data frame:
  \<^verbatim>\<open>age_group\<close>, \<^verbatim>\<open>find_participant\<close> and \<^verbatim>\<open>find_timepoint\<close>. A Python string is
  modelled as a \<open>string\<close>, one \<open>char\<close> for each character of the Python string (so the
  model covers the strings whose characters fit a \<open>char\<close>); a Python integer as an
  \<open>int\<close>. An entry of a column is a string, an integer or the missing value (the float
  \<^verbatim>\<open>nan\<close> that the table library stores for an absent entry).
\<close>

datatype cell = Str string | Num int | NaN

text \<open>The exceptions the modelled code can raise.\<close>

datatype error = ValueError | AttributeError | KeyError | TypeError

text \<open>
  A data frame maps a column name to the entries of that column, in row order.
  \<^verbatim>\<open>mydf["name"]\<close> raises \<^verbatim>\<open>KeyError\<close> for a column that is absent.
\<close>

type_synonym dataframe = "string \<rightharpoonup> cell list"

definition getitem :: "dataframe \<Rightarrow> string \<Rightarrow> error + cell list" where
  "getitem mydf name = (case mydf name of None \<Rightarrow> Inl KeyError | Some col \<Rightarrow> Inr col)"


section \<open>Built-in string operations\<close>

text \<open>
  \<^verbatim>\<open>s.rstrip(chars)\<close> with a string argument: the index \<open>j\<close> starts at the length of
  \<open>s\<close> and moves left while the character before it is one of \<open>chars\<close>; the result is
  the first \<open>j\<close> characters of \<open>s\<close>. \<open>rstrip_index\<close> is that loop.
\<close>

fun rstrip_index :: "string \<Rightarrow> string \<Rightarrow> nat \<Rightarrow> nat" where
  "rstrip_index s chars 0 = 0"
| "rstrip_index s chars (Suc j) =
     (if s ! j \<in> set chars then rstrip_index s chars j else Suc j)"

definition rstrip :: "string \<Rightarrow> string \<Rightarrow> string" where
  "rstrip s chars = take (rstrip_index s chars (length s)) s"

text \<open>
  \<^verbatim>\<open>s.endswith(suffix)\<close>: the last \<open>len(suffix)\<close> characters of \<open>s\<close> are \<open>suffix\<close>.
\<close>

definition endswith :: "string \<Rightarrow> string \<Rightarrow> bool" where
  "endswith s suffix =
     (length suffix \<le> length s \<and> drop (length s - length suffix) s = suffix)"

text \<open>
  \<^verbatim>\<open>str(n)\<close> for an integer: the decimal digits, most significant first, after a minus
  sign when \<open>n\<close> is negative.
\<close>

definition digit :: "nat \<Rightarrow> char" where
  "digit d = ''0123456789'' ! d"

fun digits :: "nat \<Rightarrow> string" where
  "digits n = (if n < 10 then [digit n] else digits (n div 10) @ [digit (n mod 10)])"

declare digits.simps [simp del]

definition str :: "int \<Rightarrow> string" where
  "str n = (if n < 0 then CHR ''-'' # digits (nat (- n)) else digits (nat n))"

text \<open>
  \<^verbatim>\<open>min(xs)\<close> over a list: \<^verbatim>\<open>ValueError\<close> on the empty list, otherwise the running
  minimum from the first element on.
\<close>

definition py_min :: "int list \<Rightarrow> error + int" where
  "py_min xs = (case xs of [] \<Rightarrow> Inl ValueError | x # rest \<Rightarrow> Inr (fold min rest x))"


section \<open>The helper functions of the notebook\<close>

subsection \<open>\<^verbatim>\<open>age_group\<close>\<close>

text \<open>
  \<^verbatim>\<open>
  def age_group(agelist):
      min_age = min(agelist)
      grouplabel1 = str(min_age) + "-55 yr"
      grouplabel2= ">55 yr"
      grouplist = []
      for i in agelist:
          if i <=55:
              grouplist.append(grouplabel1)
          else:
              grouplist.append(grouplabel2)
      return grouplist
  \<close>
  The loop is \<open>age_group_for\<close>: its last argument is \<open>grouplist\<close> as built so far.
\<close>

fun age_group_for :: "int list \<Rightarrow> string \<Rightarrow> string \<Rightarrow> string list \<Rightarrow> string list" where
  "age_group_for [] grouplabel1 grouplabel2 grouplist = grouplist"
| "age_group_for (i # rest) grouplabel1 grouplabel2 grouplist =
     (if i \<le> 55
      then age_group_for rest grouplabel1 grouplabel2 (grouplist @ [grouplabel1])
      else age_group_for rest grouplabel1 grouplabel2 (grouplist @ [grouplabel2]))"

definition age_group :: "int list \<Rightarrow> error + string list" where
  "age_group agelist =
     (case py_min agelist of
        Inl e \<Rightarrow> Inl e
      | Inr min_age \<Rightarrow>
          let grouplabel1 = str min_age @ ''-55 yr'';
              grouplabel2 = ''>55 yr'';
              grouplist = []
          in Inr (age_group_for agelist grouplabel1 grouplabel2 grouplist))"

subsection \<open>\<^verbatim>\<open>find_participant\<close>\<close>

text \<open>
  \<^verbatim>\<open>
  def find_participant(mydf, endstr):
      participant_id = []
      for i in list(mydf["submitter_id"]):
          i_participant = i.rstrip(endstr)
          participant_id.append(i_participant)
      return participant_id
  \<close>
  Only a string has the method \<^verbatim>\<open>rstrip\<close>: on an integer or on the missing value the
  attribute lookup raises \<^verbatim>\<open>AttributeError\<close>, which ends the call.
\<close>

fun find_participant_for :: "cell list \<Rightarrow> string \<Rightarrow> string list \<Rightarrow> error + string list" where
  "find_participant_for [] endstr participant_id = Inr participant_id"
| "find_participant_for (i # rest) endstr participant_id =
     (case i of
        Str s \<Rightarrow>
          let i_participant = rstrip s endstr
          in find_participant_for rest endstr (participant_id @ [i_participant])
      | _ \<Rightarrow> Inl AttributeError)"

definition find_participant :: "dataframe \<Rightarrow> string \<Rightarrow> error + string list" where
  "find_participant mydf endstr =
     (case getitem mydf ''submitter_id'' of
        Inl e \<Rightarrow> Inl e
      | Inr col \<Rightarrow> find_participant_for col endstr [])"

subsection \<open>\<^verbatim>\<open>find_timepoint\<close>\<close>

text \<open>
  \<^verbatim>\<open>
  def find_timepoint(mydf):
      timepoint = []
      for i in list(mydf["visits.submitter_id"]):
          if i.endswith("Week 0"):
              timepoint.append("Week 0")
          else:
              timepoint.append("Week 12")
      return timepoint
  \<close>
  As for \<^verbatim>\<open>rstrip\<close>, only a string has the method \<^verbatim>\<open>endswith\<close>.
\<close>

fun find_timepoint_for :: "cell list \<Rightarrow> string list \<Rightarrow> error + string list" where
  "find_timepoint_for [] timepoint = Inr timepoint"
| "find_timepoint_for (i # rest) timepoint =
     (case i of
        Str s \<Rightarrow>
          if endswith s ''Week 0''
          then find_timepoint_for rest (timepoint @ [''Week 0''])
          else find_timepoint_for rest (timepoint @ [''Week 12''])
      | _ \<Rightarrow> Inl AttributeError)"

definition find_timepoint :: "dataframe \<Rightarrow> error + string list" where
  "find_timepoint mydf =
     (case getitem mydf ''visits.submitter_id'' of
        Inl e \<Rightarrow> Inl e
      | Inr col \<Rightarrow> find_timepoint_for col [])"


section \<open>The category derivations on a store of objects\<close>

text \<open>
  A Python list is an object: a call receives a reference to it, and \<^verbatim>\<open>append\<close> changes
  the object in place. To say that a call leaves its argument as it was, \<^verbatim>\<open>age_group\<close>
  and \<^verbatim>\<open>find_timepoint\<close> are modelled a second time, on a store: the list of the
  objects allocated so far, a reference being an index into it. The objects are the
  lists of integers, of strings and of column entries, and the data frames.
\<close>

type_synonym addr = nat

datatype obj = IntList "int list" | StrList "string list" | CellList "cell list"
  | DataFrame dataframe

type_synonym heap = "obj list"

text \<open>
  A reference that is dangling, or that leads to an object of another kind than the code
  expects, does not arise in the notebook; where a function below meets one it answers
  \<^verbatim>\<open>TypeError\<close>. \<open>alloc\<close> is the creation of an object (\<^verbatim>\<open>[]\<close>, \<^verbatim>\<open>list(...)\<close>),
  \<open>list_append\<close> is \<^verbatim>\<open>append\<close> on a list of strings.
\<close>

definition lookup :: "heap \<Rightarrow> addr \<Rightarrow> obj option" where
  "lookup h a = (if a < length h then Some (h ! a) else None)"

definition alloc :: "obj \<Rightarrow> heap \<Rightarrow> addr \<times> heap" where
  "alloc v h = (length h, h @ [v])"

definition list_append :: "addr \<Rightarrow> string \<Rightarrow> heap \<Rightarrow> heap" where
  "list_append a s h =
     (case lookup h a of Some (StrList ys) \<Rightarrow> h[a := StrList (ys @ [s])] | _ \<Rightarrow> h)"

text \<open>
  \<^verbatim>\<open>for i in agelist\<close> asks the list object for its element number \<open>k\<close> at each step,
  as long as \<open>k\<close> is less than its length at that moment. A loop whose body appended to
  the list it runs over would not end: the loop is a partial function, and \<open>None\<close>
  stands for a call that does not return.
\<close>

partial_function (option) age_group_for_heap ::
  "addr \<Rightarrow> nat \<Rightarrow> string \<Rightarrow> string \<Rightarrow> addr \<Rightarrow> heap \<Rightarrow> ((error + unit) \<times> heap) option" where
  "age_group_for_heap agelist k grouplabel1 grouplabel2 grouplist h =
     (case lookup h agelist of
        Some (IntList xs) \<Rightarrow>
          if k < length xs then
            (if xs ! k \<le> 55
             then age_group_for_heap agelist (Suc k) grouplabel1 grouplabel2 grouplist
                    (list_append grouplist grouplabel1 h)
             else age_group_for_heap agelist (Suc k) grouplabel1 grouplabel2 grouplist
                    (list_append grouplist grouplabel2 h))
          else Some (Inr (), h)
      | _ \<Rightarrow> Some (Inl TypeError, h))"

definition age_group_heap :: "addr \<Rightarrow> heap \<Rightarrow> ((error + addr) \<times> heap) option" where
  "age_group_heap agelist h =
     (case lookup h agelist of
        Some (IntList xs) \<Rightarrow>
          (case py_min xs of
             Inl e \<Rightarrow> Some (Inl e, h)
           | Inr min_age \<Rightarrow>
               let grouplabel1 = str min_age @ ''-55 yr'';
                   grouplabel2 = ''>55 yr'';
                   (grouplist, h1) = alloc (StrList []) h
               in (case age_group_for_heap agelist 0 grouplabel1 grouplabel2 grouplist h1 of
                     None \<Rightarrow> None
                   | Some (Inl e, h2) \<Rightarrow> Some (Inl e, h2)
                   | Some (Inr u, h2) \<Rightarrow> Some (Inr grouplist, h2)))
      | _ \<Rightarrow> Some (Inl TypeError, h))"

text \<open>
  In \<^verbatim>\<open>find_timepoint\<close> the loop runs over \<^verbatim>\<open>list(mydf["visits.submitter_id"])\<close>, a new
  list object that holds the entries of the column.
\<close>

partial_function (option) find_timepoint_for_heap ::
  "addr \<Rightarrow> nat \<Rightarrow> addr \<Rightarrow> heap \<Rightarrow> ((error + unit) \<times> heap) option" where
  "find_timepoint_for_heap it k timepoint h =
     (case lookup h it of
        Some (CellList xs) \<Rightarrow>
          if k < length xs then
            (case xs ! k of
               Str s \<Rightarrow>
                 if endswith s ''Week 0''
                 then find_timepoint_for_heap it (Suc k) timepoint
                        (list_append timepoint ''Week 0'' h)
                 else find_timepoint_for_heap it (Suc k) timepoint
                        (list_append timepoint ''Week 12'' h)
             | _ \<Rightarrow> Some (Inl AttributeError, h))
          else Some (Inr (), h)
      | _ \<Rightarrow> Some (Inl TypeError, h))"

definition find_timepoint_heap :: "addr \<Rightarrow> heap \<Rightarrow> ((error + addr) \<times> heap) option" where
  "find_timepoint_heap mydf h =
     (case lookup h mydf of
        Some (DataFrame df) \<Rightarrow>
          let (timepoint, h1) = alloc (StrList []) h
          in (case getitem df ''visits.submitter_id'' of
                Inl e \<Rightarrow> Some (Inl e, h1)
              | Inr col \<Rightarrow>
                  let (it, h2) = alloc (CellList col) h1
                  in (case find_timepoint_for_heap it 0 timepoint h2 of
                        None \<Rightarrow> None
                      | Some (Inl e, h3) \<Rightarrow> Some (Inl e, h3)
                      | Some (Inr u, h3) \<Rightarrow> Some (Inr timepoint, h3)))
      | _ \<Rightarrow> Some (Inl TypeError, h))"

declare age_group_for_heap.simps [code]
declare find_timepoint_for_heap.simps [code]

text \<open>What a call has returned: the error, or the contents of the list it refers to.\<close>

definition returned :: "(error + addr) \<times> heap \<Rightarrow> error + string list" where
  "returned res =
     (case fst res of
        Inl e \<Rightarrow> Inl e
      | Inr a \<Rightarrow> (case lookup (snd res) a of Some (StrList ys) \<Rightarrow> Inr ys | _ \<Rightarrow> Inl TypeError))"


section \<open>Operations of the table library\<close>

text \<open>
  Modelled from the spec: the cross-tabulation is \<^verbatim>\<open>pd.crosstab\<close> of the table library,
  whose code is not part of the sources. The spec describes it as a derived table
  counting co-occurrences of two categorical columns, over the rows with non-null values
  in both columns. Here the row labels and the column labels are the values that occur in
  those rows, each once, and the cell of a row label and a column label counts the rows
  that hold both. The spec fixes no order of the labels.
\<close>

definition notnull :: "cell \<Rightarrow> bool" where
  "notnull c = (c \<noteq> NaN)"

definition complete_rows :: "cell list \<Rightarrow> cell list \<Rightarrow> (cell \<times> cell) list" where
  "complete_rows a b = filter (\<lambda>(x, y). notnull x \<and> notnull y) (zip a b)"

record frequency_table =
  row_labels :: "cell list"
  col_labels :: "cell list"
  counts :: "nat list list"

definition crosstab :: "cell list \<Rightarrow> cell list \<Rightarrow> frequency_table" where
  "crosstab a b =
     (let rows = complete_rows a b;
          rl = remdups (map fst rows);
          cl = remdups (map snd rows)
      in \<lparr>row_labels = rl, col_labels = cl,
          counts = map (\<lambda>r. map (\<lambda>c. count_list rows (r, c)) cl) rl\<rparr>)"

definition row_margins :: "frequency_table \<Rightarrow> nat list" where
  "row_margins t = map sum_list (counts t)"

definition col_margins :: "frequency_table \<Rightarrow> nat list" where
  "col_margins t =
     map (\<lambda>j. sum_list (map (\<lambda>row. row ! j) (counts t))) [0..<length (col_labels t)]"

text \<open>
  Modelled from the spec: the join is \<^verbatim>\<open>merge(..., how="outer")\<close> of the table library,
  whose code is not part of the sources. The spec describes an outer join of a table
  against a reference table on an identifier, with unmatched rows kept and filled with
  nulls. A row of an input table is its identifier and the rest of the row. A row of the
  result is a row of the left table beside a row of the right table with the same
  identifier; a row without a partner stands beside \<open>None\<close>, the null fill. \<open>left_on\<close>
  and \<open>right_on\<close> are the two identifier columns of the result. The spec fixes no order
  of the rows.
\<close>

definition merge_outer ::
  "('k \<times> 'a) list \<Rightarrow> ('k \<times> 'b) list \<Rightarrow> (('k \<times> 'a) option \<times> ('k \<times> 'b) option) list" where
  "merge_outer left right =
     concat (map (\<lambda>l. case filter (\<lambda>r. fst r = fst l) right of
                         [] \<Rightarrow> [(Some l, None)]
                       | ms \<Rightarrow> map (\<lambda>r. (Some l, Some r)) ms) left)
     @ map (\<lambda>r. (None, Some r)) (filter (\<lambda>r. fst r \<notin> fst ` set left) right)"

definition left_on :: "(('k \<times> 'a) option \<times> ('k \<times> 'b) option) list \<Rightarrow> 'k option list" where
  "left_on rows = map (\<lambda>row. map_option fst (fst row)) rows"

definition right_on :: "(('k \<times> 'a) option \<times> ('k \<times> 'b) option) list \<Rightarrow> 'k option list" where
  "right_on rows = map (\<lambda>row. map_option fst (snd row)) rows"


section \<open>Reference definitions\<close>

text \<open>
  The key with its longest trailing run of characters drawn from \<open>chars\<close> removed:
  the reference that \<^verbatim>\<open>rstrip\<close> is compared with.
\<close>

definition strip_trailing_run :: "string \<Rightarrow> string \<Rightarrow> string" where
  "strip_trailing_run key chars = rev (dropWhile (\<lambda>c. c \<in> set chars) (rev key))"


section \<open>Properties of the built-in operations and of the loops\<close>

lemma py_min_Min: "xs \<noteq> [] \<Longrightarrow> py_min xs = Inr (Min (set xs))"
proof (cases xs)
  case Nil
  assume "xs \<noteq> []"
  with Nil show ?thesis by simp
next
  case (Cons a list)
  then show ?thesis using Min.set_eq_fold [of a list] by (simp add: py_min_def)
qed

lemma rstrip_index_le: "rstrip_index s chars j \<le> j"
  by (induction j) simp_all

lemma rstrip_index_stripped:
  "rstrip_index s chars j \<le> k \<Longrightarrow> k < j \<Longrightarrow> s ! k \<in> set chars"
  by (induction j) (auto simp: less_Suc_eq split: if_splits)

lemma rstrip_index_stop:
  "0 < rstrip_index s chars j \<Longrightarrow> s ! (rstrip_index s chars j - 1) \<notin> set chars"
  by (induction j) (auto)

lemma rstrip_append: "rstrip s chars @ drop (rstrip_index s chars (length s)) s = s"
  by (simp add: rstrip_def)

lemma rstrip_removed:
  "set (drop (rstrip_index s chars (length s)) s) \<subseteq> set chars"
proof
  fix c
  assume "c \<in> set (drop (rstrip_index s chars (length s)) s)"
  then obtain k where k: "k < length s - rstrip_index s chars (length s)"
      and c: "c = drop (rstrip_index s chars (length s)) s ! k"
    by (auto simp: in_set_conv_nth)
  from k c have "c = s ! (rstrip_index s chars (length s) + k)"
    by simp
  moreover from k have "s ! (rstrip_index s chars (length s) + k) \<in> set chars"
    by (intro rstrip_index_stripped [of s chars "length s"]) simp_all
  ultimately show "c \<in> set chars" by simp
qed

lemma rstrip_last:
  "rstrip s chars = [] \<or> last (rstrip s chars) \<notin> set chars"
proof (cases "rstrip_index s chars (length s)")
  case 0
  then show ?thesis by (simp add: rstrip_def)
next
  case (Suc j)
  have le: "rstrip_index s chars (length s) \<le> length s" by (rule rstrip_index_le)
  with Suc have "last (rstrip s chars) = s ! j"
    by (simp add: rstrip_def take_Suc_conv_app_nth)
  moreover from Suc rstrip_index_stop [of s chars "length s"] have "s ! j \<notin> set chars"
    by simp
  ultimately show ?thesis by simp
qed

lemma rstrip_dropWhile:
  "rstrip s chars = rev (dropWhile (\<lambda>c. c \<in> set chars) (rev s))"
proof -
  let ?r = "rstrip s chars" and ?t = "drop (rstrip_index s chars (length s)) s"
  have split: "rev s = rev ?t @ rev ?r"
    using rstrip_append [of s chars] by (metis rev_append)
  have "dropWhile (\<lambda>c. c \<in> set chars) (rev ?t @ rev ?r)
      = dropWhile (\<lambda>c. c \<in> set chars) (rev ?r)"
    using rstrip_removed [of s chars] by (intro dropWhile_append2) auto
  with split have "dropWhile (\<lambda>c. c \<in> set chars) (rev s)
      = dropWhile (\<lambda>c. c \<in> set chars) (rev ?r)"
    by simp
  also have "\<dots> = rev ?r"
  proof (cases "?r = []")
    case True
    then show ?thesis by simp
  next
    case False
    with rstrip_last [of s chars] have "hd (rev ?r) \<notin> set chars"
      by (simp add: hd_rev)
    with False show ?thesis by (cases "rev ?r") simp_all
  qed
  finally show ?thesis by simp
qed

lemma digit_inj: "d < 10 \<Longrightarrow> e < 10 \<Longrightarrow> digit d = digit e \<Longrightarrow> d = e"
  unfolding digit_def
  by (subst (asm) nth_eq_iff_index_eq) simp_all

lemma digit_not_minus: "d < 10 \<Longrightarrow> digit d \<noteq> CHR ''-''"
proof -
  assume "d < 10"
  then have "digit d \<in> set ''0123456789''" unfolding digit_def by (intro nth_mem) simp
  then show ?thesis by auto
qed

lemma digits_not_Nil: "digits n \<noteq> []"
  by (subst digits.simps) simp

lemma length_digits_ge10: "10 \<le> n \<Longrightarrow> 2 \<le> length (digits n)"
  using digits_not_Nil [of "n div 10"]
  by (subst digits.simps) (simp add: Suc_le_eq)

lemma hd_digits: "hd (digits n) \<noteq> CHR ''-''"
proof (induction n rule: digits.induct)
  case (1 n)
  show ?case
  proof (cases "n < 10")
    case True
    then show ?thesis by (subst digits.simps) (simp add: digit_not_minus)
  next
    case False
    with 1 show ?thesis
      by (subst digits.simps) (simp add: digits_not_Nil)
  qed
qed

lemma digits_inj: "digits n = digits m \<Longrightarrow> n = m"
proof (induction n arbitrary: m rule: digits.induct)
  case (1 n)
  show ?case
  proof (cases "n < 10")
    case True
    then have n: "digits n = [digit n]" by (subst digits.simps) simp
    have "m < 10"
    proof (rule ccontr)
      assume "\<not> m < 10"
      then have "2 \<le> length (digits m)" by (intro length_digits_ge10) simp
      with n "1.prems" show False by simp
    qed
    then have "digits m = [digit m]" by (subst digits.simps) simp
    with n "1.prems" True \<open>m < 10\<close> show ?thesis by (auto dest: digit_inj)
  next
    case False
    then have n: "digits n = digits (n div 10) @ [digit (n mod 10)]"
      by (subst digits.simps) simp
    have "\<not> m < 10"
    proof
      assume "m < 10"
      then have "digits m = [digit m]" by (subst digits.simps) simp
      moreover from False have "2 \<le> length (digits n)" by (intro length_digits_ge10) simp
      ultimately show False using "1.prems" by simp
    qed
    then have m: "digits m = digits (m div 10) @ [digit (m mod 10)]"
      by (subst digits.simps) simp
    from n m "1.prems" have a: "digits (n div 10) = digits (m div 10)"
      and b: "digit (n mod 10) = digit (m mod 10)" by simp_all
    from "1.IH" [OF False a] have "n div 10 = m div 10" .
    moreover from b have "n mod 10 = m mod 10" by (intro digit_inj) simp_all
    ultimately show ?thesis by (metis div_mult_mod_eq)
  qed
qed

lemma str_inj: "str a = str b \<Longrightarrow> a = b"
proof -
  assume eq: "str a = str b"
  have neg: "x < 0 \<Longrightarrow> \<not> y < 0 \<Longrightarrow> str x \<noteq> str y" for x y
    using hd_digits [of "nat y"] by (auto simp: str_def) (metis list.sel(1))
  show ?thesis
  proof (cases "a < 0")
    case True
    with neg [of a b] eq have "b < 0" by auto
    with True eq have "nat (- a) = nat (- b)" by (auto simp: str_def dest: digits_inj)
    with True \<open>b < 0\<close> show ?thesis by simp
  next
    case False
    with neg [of b a] eq have "\<not> b < 0" by auto
    with False eq have "nat a = nat b" by (auto simp: str_def dest: digits_inj)
    with False \<open>\<not> b < 0\<close> show ?thesis by simp
  qed
qed


lemma age_group_for_map:
  "age_group_for xs g1 g2 acc = acc @ map (\<lambda>i. if i \<le> 55 then g1 else g2) xs"
  by (induction xs arbitrary: acc) simp_all

lemma find_participant_for_Str:
  "find_participant_for (map Str ks) endstr acc = Inr (acc @ map (\<lambda>k. rstrip k endstr) ks)"
  by (induction ks arbitrary: acc) simp_all

lemma find_timepoint_for_Str:
  "find_timepoint_for (map Str vs) acc =
     Inr (acc @ map (\<lambda>v. if endswith v ''Week 0'' then ''Week 0'' else ''Week 12'') vs)"
  by (induction vs arbitrary: acc) simp_all

lemma find_timepoint_for_NaN:
  "NaN \<in> set col \<Longrightarrow> find_timepoint_for col acc = Inl AttributeError"
  by (induction col arbitrary: acc) (auto split: cell.splits)

lemma all_Str_map: "\<forall>c \<in> set col. \<exists>s. c = Str s \<Longrightarrow> \<exists>vs. col = map Str vs"
proof (induction col)
  case Nil
  then show ?case by simp
next
  case (Cons c col)
  then obtain s vs where "c = Str s" "col = map Str vs" by auto
  then have "c # col = map Str (s # vs)" by simp
  then show ?case by (rule exI)
qed

lemma endswith_iff: "endswith s suffix \<longleftrightarrow> (\<exists>p. s = p @ suffix)"
proof
  assume "endswith s suffix"
  then have "s = take (length s - length suffix) s @ suffix"
    by (metis endswith_def append_take_drop_id)
  then show "\<exists>p. s = p @ suffix" ..
next
  assume "\<exists>p. s = p @ suffix"
  then show "endswith s suffix" by (auto simp: endswith_def)
qed

lemma find_timepoint_for_labels:
  "find_timepoint_for col acc = Inr tp \<Longrightarrow> set tp \<subseteq> set acc \<union> {''Week 0'', ''Week 12''}"
proof (induction col arbitrary: acc)
  case Nil
  then show ?case by auto
next
  case (Cons c col)
  show ?case
  proof (cases c)
    case (Str s)
    let ?lab = "if endswith s ''Week 0'' then ''Week 0'' else ''Week 12''"
    from Cons.prems Str have "find_timepoint_for col (acc @ [?lab]) = Inr tp"
      by (simp split: if_splits)
    then have "set tp \<subseteq> set (acc @ [?lab]) \<union> {''Week 0'', ''Week 12''}"
      by (rule Cons.IH)
    then show ?thesis by (cases "endswith s ''Week 0''") auto
  next
    case (Num n)
    with Cons.prems show ?thesis by simp
  next
    case NaN
    with Cons.prems show ?thesis by simp
  qed
qed


section \<open>Properties of the runs on a store\<close>

lemma lookup_list_append_other:
  "a \<noteq> g \<Longrightarrow> lookup (list_append g s h) a = lookup h a"
  by (auto simp: list_append_def lookup_def split: option.splits obj.splits)

lemma length_list_append: "length (list_append g s h) = length h"
  by (auto simp: list_append_def lookup_def split: option.splits obj.splits)

lemma list_append_StrList:
  "lookup h g = Some (StrList ys) \<Longrightarrow> list_append g s h = h[g := StrList (ys @ [s])]"
  by (simp add: list_append_def)

lemma age_group_for_heap_run:
  assumes "lookup h agelist = Some (IntList xs)" "lookup h grouplist = Some (StrList ys)"
    and "k \<le> length xs"
  shows "age_group_for_heap agelist k g1 g2 grouplist h
     = Some (Inr (), h[grouplist := StrList (age_group_for (drop k xs) g1 g2 ys)])"
  using assms
proof (induction "length xs - k" arbitrary: k h ys)
  case 0
  then have "drop k xs = []" by simp
  moreover from "0.prems"(2) have "h ! grouplist = StrList ys"
    by (auto simp: lookup_def split: if_splits)
  then have "h[grouplist := StrList ys] = h"
    by (metis list_update_id)
  ultimately show ?case using 0
    by (subst age_group_for_heap.simps) simp
next
  case (Suc n)
  then have k: "k < length xs" by simp
  from Suc.prems have ne: "agelist \<noteq> grouplist" by auto
  from Suc.prems have g: "grouplist < length h" by (auto simp: lookup_def split: if_splits)
  have step: "age_group_for_heap agelist (Suc k) g1 g2 grouplist (list_append grouplist lab h)
     = Some (Inr (), h[grouplist := StrList (age_group_for (drop (Suc k) xs) g1 g2 (ys @ [lab]))])"
    for lab
  proof -
    let ?h = "list_append grouplist lab h"
    have h': "?h = h[grouplist := StrList (ys @ [lab])]"
      using Suc.prems(2) by (rule list_append_StrList)
    have a: "lookup ?h agelist = Some (IntList xs)"
      using ne Suc.prems(1) by (simp add: lookup_list_append_other)
    have b: "lookup ?h grouplist = Some (StrList (ys @ [lab]))"
      using g by (simp add: h' lookup_def)
    have "age_group_for_heap agelist (Suc k) g1 g2 grouplist ?h
       = Some (Inr (), ?h[grouplist := StrList (age_group_for (drop (Suc k) xs) g1 g2 (ys @ [lab]))])"
      using Suc.hyps(2) k by (intro Suc.hyps(1) a b) simp_all
    then show ?thesis by (simp add: h')
  qed
  have d: "drop k xs = xs ! k # drop (Suc k) xs"
    using k by (simp add: Cons_nth_drop_Suc)
  show ?case
    using k Suc.prems(1) step [of g1] step [of g2]
    by (subst age_group_for_heap.simps) (simp add: d)
qed


lemma find_timepoint_for_heap_run:
  assumes "lookup h it = Some (CellList xs)" "lookup h timepoint = Some (StrList ys)"
    and "k \<le> length xs"
  shows "\<exists>r ys'. find_timepoint_for_heap it k timepoint h
             = Some (r, h[timepoint := StrList ys'])
           \<and> find_timepoint_for (drop k xs) ys = map_sum id (\<lambda>u. ys') r"
  using assms
proof (induction "length xs - k" arbitrary: k h ys)
  case 0
  then have "drop k xs = []" by simp
  moreover from "0.prems"(2) have "h ! timepoint = StrList ys"
    by (auto simp: lookup_def split: if_splits)
  then have "h[timepoint := StrList ys] = h"
    by (metis list_update_id)
  ultimately have "find_timepoint_for_heap it k timepoint h
             = Some (Inr (), h[timepoint := StrList ys])
           \<and> find_timepoint_for (drop k xs) ys = map_sum id (\<lambda>u. ys) (Inr ())"
    using 0 by (subst find_timepoint_for_heap.simps) simp
  then show ?case by blast
next
  case (Suc n)
  then have k: "k < length xs" by simp
  from Suc.prems have ne: "it \<noteq> timepoint" by auto
  from Suc.prems have g: "timepoint < length h" by (auto simp: lookup_def split: if_splits)
  from Suc.prems(2) have "h ! timepoint = StrList ys"
    by (auto simp: lookup_def split: if_splits)
  then have same: "h[timepoint := StrList ys] = h"
    by (metis list_update_id)
  have d: "drop k xs = xs ! k # drop (Suc k) xs"
    using k by (simp add: Cons_nth_drop_Suc)
  have step: "\<exists>r ys'. find_timepoint_for_heap it (Suc k) timepoint (list_append timepoint lab h)
             = Some (r, h[timepoint := StrList ys'])
           \<and> find_timepoint_for (drop (Suc k) xs) (ys @ [lab]) = map_sum id (\<lambda>u. ys') r"
    for lab
  proof -
    let ?h = "list_append timepoint lab h"
    have h': "?h = h[timepoint := StrList (ys @ [lab])]"
      using Suc.prems(2) by (rule list_append_StrList)
    have a: "lookup ?h it = Some (CellList xs)"
      using ne Suc.prems(1) by (simp add: lookup_list_append_other)
    have b: "lookup ?h timepoint = Some (StrList (ys @ [lab]))"
      using g by (simp add: h' lookup_def)
    have "\<exists>r ys'. find_timepoint_for_heap it (Suc k) timepoint ?h
             = Some (r, ?h[timepoint := StrList ys'])
           \<and> find_timepoint_for (drop (Suc k) xs) (ys @ [lab]) = map_sum id (\<lambda>u. ys') r"
      using Suc.hyps(2) k by (intro Suc.hyps(1) a b) simp_all
    then show ?thesis by (simp add: h')
  qed
  have stop: ?case if "find_timepoint_for_heap it k timepoint h = Some (Inl AttributeError, h)"
    and "find_timepoint_for (drop k xs) ys = Inl AttributeError"
  proof -
    from that same have "find_timepoint_for_heap it k timepoint h
             = Some (Inl AttributeError, h[timepoint := StrList ys])
           \<and> find_timepoint_for (drop k xs) ys = map_sum id (\<lambda>u. ys) (Inl AttributeError)"
      by simp
    then show ?thesis by blast
  qed
  show ?case
  proof (cases "xs ! k")
    case (Str s)
    let ?lab = "if endswith s ''Week 0'' then ''Week 0'' else ''Week 12''"
    have pure: "find_timepoint_for (drop k xs) ys
        = find_timepoint_for (drop (Suc k) xs) (ys @ [?lab])"
      using Str by (simp add: d)
    have heap: "find_timepoint_for_heap it k timepoint h
        = find_timepoint_for_heap it (Suc k) timepoint (list_append timepoint ?lab h)"
      using k Suc.prems(1) Str by (subst find_timepoint_for_heap.simps) simp
    from step [of ?lab] show ?thesis unfolding pure heap .
  next
    case (Num n)
    with k Suc.prems(1) show ?thesis
      by (intro stop) (subst find_timepoint_for_heap.simps, simp, simp add: d)
  next
    case NaN
    with k Suc.prems(1) show ?thesis
      by (intro stop) (subst find_timepoint_for_heap.simps, simp, simp add: d)
  qed
qed

lemma age_group_heap_run:
  assumes "lookup h agelist = Some (IntList xs)"
  shows "\<exists>res. age_group_heap agelist h = Some res
           \<and> take (length h) (snd res) = h \<and> returned res = age_group xs"
proof (cases "py_min xs")
  case (Inl e)
  with assms show ?thesis
    by (simp add: age_group_heap_def age_group_def returned_def)
next
  case (Inr min_age)
  let ?g1 = "str min_age @ ''-55 yr''" and ?g2 = "''>55 yr''"
  let ?h1 = "h @ [StrList []]"
  from assms have a: "lookup ?h1 agelist = Some (IntList xs)"
    by (auto simp: lookup_def nth_append split: if_splits)
  have b: "lookup ?h1 (length h) = Some (StrList [])"
    by (simp add: lookup_def)
  from age_group_for_heap_run [OF a b, of 0 ?g1 ?g2]
  have "age_group_for_heap agelist 0 ?g1 ?g2 (length h) ?h1
     = Some (Inr (), ?h1[length h := StrList (age_group_for xs ?g1 ?g2 [])])"
    by simp
  with assms Inr show ?thesis
    by (simp add: age_group_heap_def age_group_def returned_def alloc_def Let_def lookup_def)
qed

lemma find_timepoint_heap_run:
  assumes "lookup h mydf = Some (DataFrame df)"
  shows "\<exists>res. find_timepoint_heap mydf h = Some res
           \<and> take (length h) (snd res) = h \<and> returned res = find_timepoint df"
proof (cases "getitem df ''visits.submitter_id''")
  case (Inl e)
  with assms show ?thesis
    by (simp add: find_timepoint_heap_def find_timepoint_def returned_def alloc_def)
next
  case (Inr col)
  let ?h2 = "h @ [StrList [], CellList col]"
  have a: "lookup ?h2 (Suc (length h)) = Some (CellList col)"
    by (simp add: lookup_def nth_append)
  have b: "lookup ?h2 (length h) = Some (StrList [])"
    by (simp add: lookup_def nth_append)
  from find_timepoint_for_heap_run [OF a b, of 0]
  obtain r ys' where run: "find_timepoint_for_heap (Suc (length h)) 0 (length h) ?h2
             = Some (r, ?h2[length h := StrList ys'])"
    and r: "find_timepoint_for col [] = map_sum id (\<lambda>u. ys') r"
    by auto
  show ?thesis
  proof (cases r)
    case (Inl e)
    with assms Inr run r show ?thesis
      by (simp add: find_timepoint_heap_def find_timepoint_def returned_def alloc_def)
  next
    case (Inr u)
    with assms \<open>getitem df ''visits.submitter_id'' = Inr col\<close> run r show ?thesis
      by (simp add: find_timepoint_heap_def find_timepoint_def returned_def alloc_def
          lookup_def nth_append)
  qed
qed


section \<open>Properties of the table operations\<close>

lemma sum_cells:
  assumes "distinct rl" "distinct cl" "set rows \<subseteq> set rl \<times> set cl"
  shows "sum_list (map (\<lambda>r. sum_list (map (\<lambda>c. count_list rows (r, c)) cl)) rl) = length rows"
proof -
  have "sum_list (map (\<lambda>r. sum_list (map (\<lambda>c. count_list rows (r, c)) cl)) rl)
      = (\<Sum>r \<in> set rl. \<Sum>c \<in> set cl. count_list rows (r, c))"
    using assms(1,2) by (simp add: sum_list_distinct_conv_sum_set)
  also have "\<dots> = (\<Sum>p \<in> set rl \<times> set cl. count_list rows p)"
    by (simp add: sum.cartesian_product)
  also have "\<dots> = length rows"
    using assms(3) by (intro sum_count_set) simp_all
  finally show ?thesis .
qed

lemma sum_cells_swapped:
  assumes "distinct rl" "distinct cl" "set rows \<subseteq> set rl \<times> set cl"
  shows "sum_list (map (\<lambda>c. sum_list (map (\<lambda>r. count_list rows (r, c)) rl)) cl) = length rows"
proof -
  have "sum_list (map (\<lambda>c. sum_list (map (\<lambda>r. count_list rows (r, c)) rl)) cl)
      = (\<Sum>c \<in> set cl. \<Sum>r \<in> set rl. count_list rows (r, c))"
    using assms(1,2) by (simp add: sum_list_distinct_conv_sum_set)
  also have "\<dots> = (\<Sum>r \<in> set rl. \<Sum>c \<in> set cl. count_list rows (r, c))"
    by (rule sum.swap)
  also have "\<dots> = (\<Sum>p \<in> set rl \<times> set cl. count_list rows p)"
    by (simp add: sum.cartesian_product)
  also have "\<dots> = length rows"
    using assms(3) by (intro sum_count_set) simp_all
  finally show ?thesis .
qed

lemma rows_in_labels:
  "set rows \<subseteq> set (remdups (map fst rows)) \<times> set (remdups (map snd rows))"
  by force

lemma row_margins_total:
  "sum_list (row_margins (crosstab a b)) = length (complete_rows a b)"
  using sum_cells [OF distinct_remdups distinct_remdups rows_in_labels, of "complete_rows a b"]
  by (simp add: row_margins_def crosstab_def Let_def comp_def)

lemma col_margins_total:
  "sum_list (col_margins (crosstab a b)) = length (complete_rows a b)"
proof -
  let ?rows = "complete_rows a b"
  let ?rl = "remdups (map fst ?rows)" and ?cl = "remdups (map snd ?rows)"
  have "col_margins (crosstab a b)
      = map (\<lambda>j. sum_list (map (\<lambda>r. count_list ?rows (r, ?cl ! j)) ?rl)) [0..<length ?cl]"
    by (simp add: col_margins_def crosstab_def Let_def comp_def)
  also have "\<dots> = map (\<lambda>c. sum_list (map (\<lambda>r. count_list ?rows (r, c)) ?rl))
                      (map (\<lambda>j. ?cl ! j) [0..<length ?cl])"
    by (simp add: comp_def)
  also have "map (\<lambda>j. ?cl ! j) [0..<length ?cl] = ?cl"
    by (rule map_nth)
  finally show ?thesis
    using sum_cells_swapped [OF distinct_remdups distinct_remdups rows_in_labels, of ?rows]
    by simp
qed

lemma complete_rows_count:
  "length (complete_rows a b)
     = length (zip a b) - length (filter (\<lambda>(x, y). x = NaN \<or> y = NaN) (zip a b))"
proof -
  have "length (zip a b) = length (filter (\<lambda>(x, y). notnull x \<and> notnull y) (zip a b))
      + length (filter (\<lambda>p. \<not> (case p of (x, y) \<Rightarrow> notnull x \<and> notnull y)) (zip a b))"
    by (rule sum_length_filter_compl [symmetric])
  moreover have "(\<lambda>p. \<not> (case p of (x, y) \<Rightarrow> notnull x \<and> notnull y))
      = (\<lambda>(x, y). x = NaN \<or> y = NaN)"
    by (auto simp: notnull_def)
  ultimately show ?thesis by (simp add: complete_rows_def)
qed

lemma left_keys_kept: "Some ` fst ` set left \<subseteq> set (left_on (merge_outer left right))"
proof
  fix k
  assume "k \<in> Some ` fst ` set left"
  then obtain l where l: "l \<in> set left" and k: "k = Some (fst l)" by auto
  show "k \<in> set (left_on (merge_outer left right))"
  proof (cases "filter (\<lambda>r. fst r = fst l) right")
    case Nil
    with l have "(Some l, None) \<in> set (merge_outer left right)"
      unfolding merge_outer_def by force
    then show ?thesis unfolding left_on_def k by force
  next
    case (Cons r rs)
    with l have "(Some l, Some r) \<in> set (merge_outer left right)"
      unfolding merge_outer_def by force
    then show ?thesis unfolding left_on_def k by force
  qed
qed

lemma right_keys_kept: "Some ` fst ` set right \<subseteq> set (right_on (merge_outer left right))"
proof
  fix k
  assume "k \<in> Some ` fst ` set right"
  then obtain r where r: "r \<in> set right" and k: "k = Some (fst r)" by auto
  show "k \<in> set (right_on (merge_outer left right))"
  proof (cases "fst r \<in> fst ` set left")
    case False
    with r have "(None, Some r) \<in> set (merge_outer left right)"
      unfolding merge_outer_def by force
    then show ?thesis unfolding right_on_def k by force
  next
    case True
    then obtain l where l: "l \<in> set left" and eq: "fst r = fst l" by auto
    from r eq have "r \<in> set (filter (\<lambda>r. fst r = fst l) right)" by simp
    then obtain m ms where ms: "filter (\<lambda>r. fst r = fst l) right = m # ms"
      by (cases "filter (\<lambda>r. fst r = fst l) right") auto
    with \<open>r \<in> set (filter (\<lambda>r. fst r = fst l) right)\<close> l
    have "(Some l, Some r) \<in> set (merge_outer left right)"
      unfolding merge_outer_def by force
    then show ?thesis unfolding right_on_def k by force
  qed
qed


lemma sum_list_concat_rows: "sum_list (concat xss) = sum_list (map sum_list xss)"
  for xss :: "nat list list"
  by (induction xss) simp_all


section \<open>The claims\<close>


text \<open>
  C1. On a table whose \<^verbatim>\<open>submitter_id\<close> column holds the single key \<^verbatim>\<open>"P001_sc"\<close>,
  \<^verbatim>\<open>find_participant\<close> with the suffix string \<^verbatim>\<open>"_sc"\<close> returns the identifier
  \<^verbatim>\<open>"P001"\<close>.
\<close>

theorem find_participant_P001_sc:
  assumes "mydf ''submitter_id'' = Some [Str ''P001_sc'']"
  shows "find_participant mydf ''_sc'' = Inr [''P001'']"
  using assms by (simp add: find_participant_def getitem_def rstrip_def)

theorem find_participant_P001_sc_witness:
  "[''submitter_id'' \<mapsto> [Str ''P001_sc''], ''OPIOID01'' \<mapsto> [Str ''Yes'']] ''submitter_id''
      = Some [Str ''P001_sc'']
   \<and> find_participant [''submitter_id'' \<mapsto> [Str ''P001_sc''], ''OPIOID01'' \<mapsto> [Str ''Yes'']] ''_sc''
      = Inr [''P001'']"
  using find_participant_P001_sc
    [of "[''submitter_id'' \<mapsto> [Str ''P001_sc''], ''OPIOID01'' \<mapsto> [Str ''Yes'']]"]
  by simp

text \<open>
  C2. The key \<^verbatim>\<open>"P001s"\<close> does not end with the suffix \<^verbatim>\<open>"_sc"\<close>, and still
  \<^verbatim>\<open>find_participant\<close> does not return it unchanged: \<^verbatim>\<open>rstrip\<close> removes the trailing
  \<^verbatim>\<open>s\<close>, a character of the suffix, and the identifier is \<^verbatim>\<open>"P001"\<close>.
\<close>

theorem find_participant_P001s:
  "\<not> endswith ''P001s'' ''_sc''
   \<and> find_participant [''submitter_id'' \<mapsto> [Str ''P001s'']] ''_sc'' = Inr [''P001'']"
  by (simp add: find_participant_def getitem_def rstrip_def endswith_def)

text \<open>
  C3. For every list of keys and every suffix string, \<^verbatim>\<open>find_participant\<close> returns,
  for each key, the key with its longest trailing run of characters of the suffix string
  removed: the result is the reference \<open>strip_trailing_run\<close>; the key is the result
  followed by a run of characters that all occur in the suffix string, so the result is a
  prefix of the key; and the result is empty or ends with a character that does not occur
  in the suffix string, so the run is the longest one. The key \<^verbatim>\<open>"P001s"\<close> with the
  suffix \<^verbatim>\<open>"_sc"\<close> is shortened to \<^verbatim>\<open>"P001"\<close> although it does not end with the
  suffix.
\<close>

theorem find_participant_rstrip:
  assumes "mydf ''submitter_id'' = Some (map Str keys)"
  shows "find_participant mydf endstr = Inr (map (\<lambda>key. strip_trailing_run key endstr) keys)
    \<and> (\<forall>key \<in> set keys. \<exists>run.
          key = strip_trailing_run key endstr @ run \<and> set run \<subseteq> set endstr
          \<and> (strip_trailing_run key endstr = []
               \<or> last (strip_trailing_run key endstr) \<notin> set endstr))
    \<and> (keys = [''P001s''] \<and> endstr = ''_sc''
          \<longrightarrow> \<not> endswith ''P001s'' ''_sc'' \<and> find_participant mydf endstr = Inr [''P001''])"
proof -
  have eq: "strip_trailing_run key endstr = rstrip key endstr" for key
    by (simp add: strip_trailing_run_def rstrip_dropWhile)
  have run: "\<exists>run. key = strip_trailing_run key endstr @ run \<and> set run \<subseteq> set endstr
          \<and> (strip_trailing_run key endstr = []
               \<or> last (strip_trailing_run key endstr) \<notin> set endstr)" for key
    unfolding eq using rstrip_append [of key endstr] rstrip_removed [of key endstr]
      rstrip_last [of key endstr] by metis
  have res: "find_participant mydf endstr = Inr (map (\<lambda>key. strip_trailing_run key endstr) keys)"
    using assms by (simp add: find_participant_def getitem_def find_participant_for_Str eq)
  have ex: "\<not> endswith ''P001s'' ''_sc'' \<and> strip_trailing_run ''P001s'' ''_sc'' = ''P001''"
    by (simp add: endswith_def strip_trailing_run_def)
  from res run ex show ?thesis by auto
qed

theorem find_participant_rstrip_witness:
  "[''submitter_id'' \<mapsto> [Str ''P001s'']] ''submitter_id'' = Some (map Str [''P001s''])
   \<and> find_participant [''submitter_id'' \<mapsto> [Str ''P001s'']] ''_sc'' = Inr [''P001'']
   \<and> strip_trailing_run ''P001s'' ''_sc'' = ''P001''
   \<and> \<not> endswith ''P001s'' ''_sc''"
  using find_participant_rstrip [of "[''submitter_id'' \<mapsto> [Str ''P001s'']]" "[''P001s'']" "''_sc''"]
  by (simp add: strip_trailing_run_def)

text \<open>
  C4. On the ages 40, 55, 56, 70 (the threshold 55 is fixed in the code),
  \<^verbatim>\<open>age_group\<close> returns the labels \<^verbatim>\<open>"40-55 yr", "40-55 yr", ">55 yr", ">55 yr"\<close>.
\<close>

theorem age_group_example:
  "age_group [40, 55, 56, 70] = Inr [''40-55 yr'', ''40-55 yr'', ''>55 yr'', ''>55 yr'']"
  by (simp add: age_group_def py_min_def str_def digits.simps digit_def Let_def)

text \<open>
  C5. On a non-empty list of ages \<^verbatim>\<open>age_group\<close> raises no error and returns a list of
  the same length, in which an age of at most 55 has the label made of the minimum of the
  list followed by \<^verbatim>\<open>"-55 yr"\<close> and an age above 55 has the label \<^verbatim>\<open>">55 yr"\<close>. The
  low-group label varies with the minimum: lists with different minima have different
  low-group labels. On the empty list the call raises \<^verbatim>\<open>ValueError\<close>.
\<close>

theorem age_group_nonempty:
  "(agelist \<noteq> [] \<longrightarrow>
      (\<exists>grouplist. age_group agelist = Inr grouplist
         \<and> length grouplist = length agelist
         \<and> (\<forall>n < length agelist.
               grouplist ! n = (if agelist ! n \<le> 55
                                then str (Min (set agelist)) @ ''-55 yr'' else ''>55 yr''))))
   \<and> (\<forall>other. other \<noteq> [] \<and> Min (set other) \<noteq> Min (set agelist)
         \<longrightarrow> str (Min (set other)) @ ''-55 yr'' \<noteq> str (Min (set agelist)) @ ''-55 yr'')
   \<and> (agelist = [] \<longrightarrow> age_group agelist = Inl ValueError)"
proof -
  have a: "age_group agelist = Inr (map (\<lambda>i. if i \<le> 55
              then str (Min (set agelist)) @ ''-55 yr'' else ''>55 yr'') agelist)"
    if "agelist \<noteq> []"
    using that by (simp add: age_group_def py_min_Min age_group_for_map Let_def)
  have b: "str x @ ''-55 yr'' \<noteq> str y @ ''-55 yr''" if "x \<noteq> y" for x y
    using that str_inj [of x y] by auto
  have c: "age_group [] = Inl ValueError"
    by (simp add: age_group_def py_min_def)
  from a b c show ?thesis by auto
qed

theorem age_group_nonempty_witness:
  "[30, 60] \<noteq> ([] :: int list)
   \<and> age_group [30, 60] = Inr [''30-55 yr'', ''>55 yr'']
   \<and> str (Min (set [40, 55, 56, 70])) @ ''-55 yr'' \<noteq> str (Min (set [30, 60])) @ ''-55 yr''
   \<and> age_group [] = Inl ValueError"
  using age_group_nonempty [of "[30, 60]"] age_group_nonempty [of "[]"]
  by (simp add: age_group_def py_min_def str_def digits.simps digit_def Let_def)

text \<open>
  C6, as stated, fails on a missing value: a column whose only entry is the missing value
  makes \<^verbatim>\<open>find_timepoint\<close> raise \<^verbatim>\<open>AttributeError\<close>; the entry is not put in the
  bucket \<^verbatim>\<open>"Week 12"\<close>.
\<close>

theorem find_timepoint_null_counterexample:
  "find_timepoint [''visits.submitter_id'' \<mapsto> [NaN]] = Inl AttributeError"
  by (simp add: find_timepoint_def getitem_def)

text \<open>
  C6, amended. \<^verbatim>\<open>find_timepoint\<close> handles no error. On a visit-label column whose
  entries are all strings it raises no error and returns one label for each entry, and
  every entry that does not end with \<^verbatim>\<open>"Week 0"\<close>, recognised or not, has the label
  \<^verbatim>\<open>"Week 12"\<close>. On a column with a missing value the call raises \<^verbatim>\<open>AttributeError\<close>.
\<close>

theorem find_timepoint_default_bucket:
  assumes "mydf ''visits.submitter_id'' = Some col"
  shows "((\<forall>c \<in> set col. \<exists>s. c = Str s) \<longrightarrow>
           (\<exists>timepoint. find_timepoint mydf = Inr timepoint
              \<and> length timepoint = length col
              \<and> (\<forall>n < length col. \<forall>s. col ! n = Str s \<and> \<not> (\<exists>p. s = p @ ''Week 0'')
                    \<longrightarrow> timepoint ! n = ''Week 12'')))
        \<and> (NaN \<in> set col \<longrightarrow> find_timepoint mydf = Inl AttributeError)"
proof -
  have "\<exists>timepoint. find_timepoint mydf = Inr timepoint
              \<and> length timepoint = length col
              \<and> (\<forall>n < length col. \<forall>s. col ! n = Str s \<and> \<not> (\<exists>p. s = p @ ''Week 0'')
                    \<longrightarrow> timepoint ! n = ''Week 12'')"
    if "\<forall>c \<in> set col. \<exists>s. c = Str s"
  proof -
    from that obtain vs where vs: "col = map Str vs" using all_Str_map by blast
    let ?tp = "map (\<lambda>v. if endswith v ''Week 0'' then ''Week 0'' else ''Week 12'') vs"
    from assms vs have "find_timepoint mydf = Inr ?tp"
      by (simp add: find_timepoint_def getitem_def find_timepoint_for_Str)
    moreover from vs have "length ?tp = length col" by simp
    moreover from vs have "\<forall>n < length col. \<forall>s. col ! n = Str s \<and> \<not> (\<exists>p. s = p @ ''Week 0'')
                    \<longrightarrow> ?tp ! n = ''Week 12''"
      by (auto simp: endswith_iff)
    ultimately show ?thesis by blast
  qed
  moreover have "find_timepoint mydf = Inl AttributeError" if "NaN \<in> set col"
    using assms that find_timepoint_for_NaN [of col "[]"]
    by (simp add: find_timepoint_def getitem_def)
  ultimately show ?thesis by blast
qed

theorem find_timepoint_default_bucket_witness:
  "[''visits.submitter_id'' \<mapsto> [Str ''Visit Week 0'', Str ''Visit Week 6'', Str ''unknown'']]
      ''visits.submitter_id''
      = Some [Str ''Visit Week 0'', Str ''Visit Week 6'', Str ''unknown'']
   \<and> find_timepoint
        [''visits.submitter_id'' \<mapsto> [Str ''Visit Week 0'', Str ''Visit Week 6'', Str ''unknown'']]
      = Inr [''Week 0'', ''Week 12'', ''Week 12'']
   \<and> find_timepoint [''visits.submitter_id'' \<mapsto> [Str ''Visit Week 0'', NaN]] = Inl AttributeError"
  using find_timepoint_default_bucket
    [of "[''visits.submitter_id'' \<mapsto> [Str ''Visit Week 0'', Str ''Visit Week 6'', Str ''unknown'']]"
       "[Str ''Visit Week 0'', Str ''Visit Week 6'', Str ''unknown'']"]
    find_timepoint_default_bucket
    [of "[''visits.submitter_id'' \<mapsto> [Str ''Visit Week 0'', NaN]]" "[Str ''Visit Week 0'', NaN]"]
  by (simp add: find_timepoint_def getitem_def endswith_def)

text \<open>
  C7. For two columns of one table, the cells of their cross-tabulation sum to the number
  of rows in which both columns are non-null; so do its row margins and its column
  margins; and that number is the row count of the table minus the rows with a missing
  value in one of the two columns.
\<close>

theorem crosstab_margins:
  assumes "length a = length b"
  shows "sum_list (concat (counts (crosstab a b)))
           = length (filter (\<lambda>(x, y). x \<noteq> NaN \<and> y \<noteq> NaN) (zip a b))
       \<and> sum_list (row_margins (crosstab a b)) = sum_list (concat (counts (crosstab a b)))
       \<and> sum_list (col_margins (crosstab a b)) = sum_list (concat (counts (crosstab a b)))
       \<and> sum_list (concat (counts (crosstab a b)))
           = length a - length (filter (\<lambda>(x, y). x = NaN \<or> y = NaN) (zip a b))"
proof -
  have cells: "sum_list (concat (counts (crosstab a b))) = sum_list (row_margins (crosstab a b))"
    by (simp add: row_margins_def sum_list_concat_rows)
  have rows: "complete_rows a b = filter (\<lambda>(x, y). x \<noteq> NaN \<and> y \<noteq> NaN) (zip a b)"
    by (simp add: complete_rows_def notnull_def)
  from assms have len: "length (zip a b) = length a" by simp
  show ?thesis
    using row_margins_total [of a b] col_margins_total [of a b] complete_rows_count [of a b]
    unfolding cells rows len by simp
qed

theorem crosstab_margins_witness:
  "length [Str ''White'', Str ''Asian'', NaN, Str ''White'', Str ''White'']
     = length [Str ''Male'', Str ''Female'', Str ''Female'', NaN, Str ''Male'']
   \<and> counts (crosstab [Str ''White'', Str ''Asian'', NaN, Str ''White'', Str ''White'']
                       [Str ''Male'', Str ''Female'', Str ''Female'', NaN, Str ''Male''])
      = [[1, 0], [0, 2]]
   \<and> sum_list (concat (counts (crosstab [Str ''White'', Str ''Asian'', NaN, Str ''White'', Str ''White'']
                       [Str ''Male'', Str ''Female'', Str ''Female'', NaN, Str ''Male''])))
      = 3
   \<and> length (filter (\<lambda>(x, y). x \<noteq> NaN \<and> y \<noteq> NaN)
        (zip [Str ''White'', Str ''Asian'', NaN, Str ''White'', Str ''White'']
             [Str ''Male'', Str ''Female'', Str ''Female'', NaN, Str ''Male''])) = 3"
  using crosstab_margins [of "[Str ''White'', Str ''Asian'', NaN, Str ''White'', Str ''White'']"
      "[Str ''Male'', Str ''Female'', Str ''Female'', NaN, Str ''Male'']"]
  by (simp add: crosstab_def complete_rows_def notnull_def Let_def eval_nat_numeral)

text \<open>
  C8. Every identifier of a row of the left table is in the left identifier column of the
  outer join, and every identifier of a row of the right table is in its right identifier
  column: each identifier of either input appears in the result.
\<close>

theorem merge_outer_complete:
  "(\<forall>l \<in> set left. Some (fst l) \<in> set (left_on (merge_outer left right)))
   \<and> (\<forall>r \<in> set right. Some (fst r) \<in> set (right_on (merge_outer left right)))"
  using left_keys_kept [of left right] right_keys_kept [of right left] by blast

theorem merge_outer_complete_witness:
  "merge_outer [(''P001'', ''Yes''), (''P002'', ''No'')] [(''P002'', 61 :: int), (''P003'', 47)]
     = [(Some (''P001'', ''Yes''), None),
        (Some (''P002'', ''No''), Some (''P002'', 61)),
        (None, Some (''P003'', 47))]
   \<and> Some ''P001'' \<in> set (left_on (merge_outer [(''P001'', ''Yes''), (''P002'', ''No'')]
                                   [(''P002'', 61 :: int), (''P003'', 47)]))
   \<and> Some ''P003'' \<in> set (right_on (merge_outer [(''P001'', ''Yes''), (''P002'', ''No'')]
                                   [(''P002'', 61 :: int), (''P003'', 47)]))"
  using merge_outer_complete [of "[(''P001'', ''Yes''), (''P002'', ''No'')]"
      "[(''P002'', 61 :: int), (''P003'', 47)]"]
  by (simp add: merge_outer_def)

text \<open>
  C9. On a column whose values are already labels, \<^verbatim>\<open>"Week 0"\<close> or \<^verbatim>\<open>"Week 12"\<close>,
  \<^verbatim>\<open>find_timepoint\<close> returns the values unchanged; so the labels it has returned, put in
  the column again, are returned again.
\<close>

theorem find_timepoint_idempotent:
  "(mydf ''visits.submitter_id'' = Some (map Str labels)
      \<and> set labels \<subseteq> {''Week 0'', ''Week 12''}
      \<longrightarrow> find_timepoint mydf = Inr labels)
   \<and> (find_timepoint mydf = Inr timepoint
      \<longrightarrow> find_timepoint (mydf(''visits.submitter_id'' \<mapsto> map Str timepoint)) = Inr timepoint)"
proof -
  have same: "map (\<lambda>v. if endswith v ''Week 0'' then ''Week 0'' else ''Week 12'') labels = labels"
    if "set labels \<subseteq> {''Week 0'', ''Week 12''}" for labels
    using that by (induction labels) (auto simp: endswith_def)
  have run: "find_timepoint df = Inr labels"
    if "df ''visits.submitter_id'' = Some (map Str labels)"
      and "set labels \<subseteq> {''Week 0'', ''Week 12''}" for df labels
    using that by (simp add: find_timepoint_def getitem_def find_timepoint_for_Str same)
  have out: "set timepoint \<subseteq> {''Week 0'', ''Week 12''}" if "find_timepoint mydf = Inr timepoint"
    using that find_timepoint_for_labels [of _ "[]" timepoint]
    by (auto simp: find_timepoint_def getitem_def split: option.splits)
  show ?thesis using run [of mydf labels] out run [of "mydf(''visits.submitter_id'' \<mapsto> map Str timepoint)" timepoint]
    by auto
qed

theorem find_timepoint_idempotent_witness:
  "[''visits.submitter_id'' \<mapsto> map Str [''Week 0'', ''Week 12'']] ''visits.submitter_id''
      = Some (map Str [''Week 0'', ''Week 12''])
   \<and> set [''Week 0'', ''Week 12''] \<subseteq> {''Week 0'', ''Week 12''}
   \<and> find_timepoint [''visits.submitter_id'' \<mapsto> map Str [''Week 0'', ''Week 12'']]
      = Inr [''Week 0'', ''Week 12'']
   \<and> find_timepoint [''visits.submitter_id'' \<mapsto> [Str ''Week 0'']] = Inr [''Week 0'']
   \<and> find_timepoint [''visits.submitter_id'' \<mapsto> [Str ''Week 12'']] = Inr [''Week 12'']"
  using find_timepoint_idempotent
    [of "[''visits.submitter_id'' \<mapsto> map Str [''Week 0'', ''Week 12'']]" "[''Week 0'', ''Week 12'']"]
  by (simp add: find_timepoint_def getitem_def endswith_def)

text \<open>
  C10. Run on two stores that hold the same list of ages, at whatever references,
  \<^verbatim>\<open>age_group\<close> returns in both, with the same error or with lists of the same contents,
  which depend on the list of ages alone; and each run leaves every object that was in
  its store as it was, the list of ages among them. The same holds of \<^verbatim>\<open>find_timepoint\<close>
  for two stores that hold data frames with equal \<^verbatim>\<open>visits.submitter_id\<close> columns, whatever
  their other columns are: the two runs return the same, which depends on that one column
  alone, and each leaves its data frame as it was.
\<close>

theorem category_derivation_pure:
  "(lookup h1 a1 = Some (IntList agelist) \<and> lookup h2 a2 = Some (IntList agelist) \<longrightarrow>
      (\<exists>run1 run2. age_group_heap a1 h1 = Some run1 \<and> age_group_heap a2 h2 = Some run2
         \<and> returned run1 = returned run2 \<and> returned run1 = age_group agelist
         \<and> take (length h1) (snd run1) = h1 \<and> take (length h2) (snd run2) = h2
         \<and> lookup (snd run1) a1 = Some (IntList agelist)
         \<and> lookup (snd run2) a2 = Some (IntList agelist)))
   \<and> (lookup h1 d1 = Some (DataFrame df1) \<and> lookup h2 d2 = Some (DataFrame df2)
        \<and> df1 ''visits.submitter_id'' = df2 ''visits.submitter_id'' \<longrightarrow>
      (\<exists>run1 run2. find_timepoint_heap d1 h1 = Some run1 \<and> find_timepoint_heap d2 h2 = Some run2
         \<and> returned run1 = returned run2
         \<and> returned run1 = find_timepoint df1 \<and> returned run2 = find_timepoint df2
         \<and> returned run1 = (case df1 ''visits.submitter_id'' of
                                None \<Rightarrow> Inl KeyError
                              | Some col \<Rightarrow> find_timepoint_for col [])
         \<and> take (length h1) (snd run1) = h1 \<and> take (length h2) (snd run2) = h2
         \<and> lookup (snd run1) d1 = Some (DataFrame df1)
         \<and> lookup (snd run2) d2 = Some (DataFrame df2)))"
proof -
  have kept: "lookup h' a = Some v" if "take (length h) h' = h" "lookup h a = Some v" for h h' a v
  proof -
    from that(2) have a: "a < length h" and v: "h ! a = v"
      by (auto simp: lookup_def split: if_splits)
    have "length (take (length h) h') = min (length h) (length h')"
      by simp
    with that(1) have "length h \<le> length h'"
      by simp
    moreover from that(1) a have "h' ! a = h ! a"
      by (metis nth_take)
    ultimately show ?thesis using a v by (simp add: lookup_def)
  qed
  have column: "find_timepoint df = (case df ''visits.submitter_id'' of
                                None \<Rightarrow> Inl KeyError
                              | Some col \<Rightarrow> find_timepoint_for col [])" for df
    by (simp add: find_timepoint_def getitem_def split: option.splits)
  show ?thesis
  proof (intro conjI impI; elim conjE)
    assume a: "lookup h1 a1 = Some (IntList agelist)" and b: "lookup h2 a2 = Some (IntList agelist)"
    from age_group_heap_run [OF a] age_group_heap_run [OF b] kept a b
    show "\<exists>run1 run2. age_group_heap a1 h1 = Some run1 \<and> age_group_heap a2 h2 = Some run2
         \<and> returned run1 = returned run2 \<and> returned run1 = age_group agelist
         \<and> take (length h1) (snd run1) = h1 \<and> take (length h2) (snd run2) = h2
         \<and> lookup (snd run1) a1 = Some (IntList agelist)
         \<and> lookup (snd run2) a2 = Some (IntList agelist)"
      by metis
  next
    assume a: "lookup h1 d1 = Some (DataFrame df1)" and b: "lookup h2 d2 = Some (DataFrame df2)"
      and c: "df1 ''visits.submitter_id'' = df2 ''visits.submitter_id''"
    from find_timepoint_heap_run [OF a] obtain run1 where r1: "find_timepoint_heap d1 h1 = Some run1"
      "take (length h1) (snd run1) = h1" "returned run1 = find_timepoint df1"
      by blast
    from find_timepoint_heap_run [OF b] obtain run2 where r2: "find_timepoint_heap d2 h2 = Some run2"
      "take (length h2) (snd run2) = h2" "returned run2 = find_timepoint df2"
      by blast
    from c have same: "find_timepoint df1 = find_timepoint df2"
      by (simp add: column)
    have k1: "lookup (snd run1) d1 = Some (DataFrame df1)"
      using r1(2) a by (rule kept)
    have k2: "lookup (snd run2) d2 = Some (DataFrame df2)"
      using r2(2) b by (rule kept)
    have "find_timepoint_heap d1 h1 = Some run1 \<and> find_timepoint_heap d2 h2 = Some run2
         \<and> returned run1 = returned run2
         \<and> returned run1 = find_timepoint df1 \<and> returned run2 = find_timepoint df2
         \<and> returned run1 = (case df1 ''visits.submitter_id'' of
                                None \<Rightarrow> Inl KeyError
                              | Some col \<Rightarrow> find_timepoint_for col [])
         \<and> take (length h1) (snd run1) = h1 \<and> take (length h2) (snd run2) = h2
         \<and> lookup (snd run1) d1 = Some (DataFrame df1)
         \<and> lookup (snd run2) d2 = Some (DataFrame df2)"
      using r1 r2 same k1 k2 column [of df1] by simp
    then show "\<exists>run1 run2. find_timepoint_heap d1 h1 = Some run1 \<and> find_timepoint_heap d2 h2 = Some run2
         \<and> returned run1 = returned run2
         \<and> returned run1 = find_timepoint df1 \<and> returned run2 = find_timepoint df2
         \<and> returned run1 = (case df1 ''visits.submitter_id'' of
                                None \<Rightarrow> Inl KeyError
                              | Some col \<Rightarrow> find_timepoint_for col [])
         \<and> take (length h1) (snd run1) = h1 \<and> take (length h2) (snd run2) = h2
         \<and> lookup (snd run1) d1 = Some (DataFrame df1)
         \<and> lookup (snd run2) d2 = Some (DataFrame df2)"
      by blast
  qed
qed

theorem category_derivation_pure_witness:
  "lookup [IntList [40, 60], DataFrame [''visits.submitter_id'' \<mapsto> [Str ''Visit Week 0'']]] 0
      = Some (IntList [40, 60])
   \<and> lookup [DataFrame [''visits.submitter_id'' \<mapsto> [Str ''Visit Week 0''],
                         ''OPIOID01'' \<mapsto> [Str ''Yes'']], StrList [], IntList [40, 60]] 2
      = Some (IntList [40, 60])
   \<and> lookup [IntList [40, 60], DataFrame [''visits.submitter_id'' \<mapsto> [Str ''Visit Week 0'']]] 1
      = Some (DataFrame [''visits.submitter_id'' \<mapsto> [Str ''Visit Week 0'']])
   \<and> lookup [DataFrame [''visits.submitter_id'' \<mapsto> [Str ''Visit Week 0''],
                         ''OPIOID01'' \<mapsto> [Str ''Yes'']], StrList [], IntList [40, 60]] 0
      = Some (DataFrame [''visits.submitter_id'' \<mapsto> [Str ''Visit Week 0''],
                         ''OPIOID01'' \<mapsto> [Str ''Yes'']])
   \<and> [''visits.submitter_id'' \<mapsto> [Str ''Visit Week 0'']] ''visits.submitter_id''
      = [''visits.submitter_id'' \<mapsto> [Str ''Visit Week 0''], ''OPIOID01'' \<mapsto> [Str ''Yes'']]
          ''visits.submitter_id''
   \<and> [''visits.submitter_id'' \<mapsto> [Str ''Visit Week 0'']] ''OPIOID01''
      \<noteq> [''visits.submitter_id'' \<mapsto> [Str ''Visit Week 0''], ''OPIOID01'' \<mapsto> [Str ''Yes'']]
          ''OPIOID01''
   \<and> (\<exists>run1 run2.
         age_group_heap 0 [IntList [40, 60], DataFrame [''visits.submitter_id'' \<mapsto> [Str ''Visit Week 0'']]]
           = Some run1
         \<and> age_group_heap 2
             [DataFrame [''visits.submitter_id'' \<mapsto> [Str ''Visit Week 0''],
                         ''OPIOID01'' \<mapsto> [Str ''Yes'']], StrList [], IntList [40, 60]]
           = Some run2
         \<and> returned run1 = Inr [''40-55 yr'', ''>55 yr'']
         \<and> returned run2 = Inr [''40-55 yr'', ''>55 yr''])
   \<and> (\<exists>run1 run2.
         find_timepoint_heap 1
             [IntList [40, 60], DataFrame [''visits.submitter_id'' \<mapsto> [Str ''Visit Week 0'']]]
           = Some run1
         \<and> find_timepoint_heap 0
             [DataFrame [''visits.submitter_id'' \<mapsto> [Str ''Visit Week 0''],
                         ''OPIOID01'' \<mapsto> [Str ''Yes'']], StrList [], IntList [40, 60]]
           = Some run2
         \<and> returned run1 = Inr [''Week 0'']
         \<and> returned run2 = Inr [''Week 0''])"
proof -
  let ?df1 = "[''visits.submitter_id'' \<mapsto> [Str ''Visit Week 0'']]"
  let ?df2 = "[''visits.submitter_id'' \<mapsto> [Str ''Visit Week 0''], ''OPIOID01'' \<mapsto> [Str ''Yes'']]"
  let ?h1 = "[IntList [40, 60], DataFrame ?df1]"
  let ?h2 = "[DataFrame ?df2, StrList [], IntList [40, 60]]"
  have l1: "lookup ?h1 0 = Some (IntList [40, 60])" by (simp add: lookup_def)
  have l2: "lookup ?h2 2 = Some (IntList [40, 60])" by (simp add: lookup_def)
  have l3: "lookup ?h1 1 = Some (DataFrame ?df1)" by (simp add: lookup_def)
  have l4: "lookup ?h2 0 = Some (DataFrame ?df2)" by (simp add: lookup_def)
  have c: "?df1 ''visits.submitter_id'' = ?df2 ''visits.submitter_id''" by simp
  have d: "?df1 ''OPIOID01'' \<noteq> ?df2 ''OPIOID01''" by simp
  have ag: "age_group [40, 60] = Inr [''40-55 yr'', ''>55 yr'']"
    by (simp add: age_group_def py_min_def str_def digits.simps digit_def Let_def)
  have ft: "find_timepoint ?df1 = Inr [''Week 0'']"
    by (simp add: find_timepoint_def getitem_def endswith_def)
  note inst = category_derivation_pure [of ?h1 0 "[40, 60]" ?h2 2 1 ?df1 0 ?df2]
  from inst l1 l2 have "\<exists>run1 run2. age_group_heap 0 ?h1 = Some run1
         \<and> age_group_heap 2 ?h2 = Some run2
         \<and> returned run1 = Inr [''40-55 yr'', ''>55 yr'']
         \<and> returned run2 = Inr [''40-55 yr'', ''>55 yr'']"
    unfolding ag by metis
  moreover from inst l3 l4 c have "\<exists>run1 run2. find_timepoint_heap 1 ?h1 = Some run1
         \<and> find_timepoint_heap 0 ?h2 = Some run2
         \<and> returned run1 = Inr [''Week 0'']
         \<and> returned run2 = Inr [''Week 0'']"
    unfolding ft by metis
  ultimately show ?thesis using l1 l2 l3 l4 c d by blast
qed

end
